theory Spec2Isabelle
  imports Main "HOL-Library.Sublist"
begin

section \<open>Python string helpers used by the sources\<close>

text \<open>
  Python \<open>str\<close> values are modelled as \<open>string\<close> (lists of characters).  The functions of
  this section are the standard-library operations the sources call on paths; they follow
  the definitions of CPython's \<open>posixpath\<close> module (the program creates symbolic links and
  joins with the separator \<open>/\<close>, so the POSIX flavour of \<open>os.path\<close> is the one in use).
\<close>

definition startswith :: "string \<Rightarrow> string \<Rightarrow> bool" where
  "startswith s p = (take (length p) s = p)"

definition endswith :: "string \<Rightarrow> string \<Rightarrow> bool" where
  "endswith s p = (length p \<le> length s \<and> drop (length s - length p) s = p)"

text \<open>\<open>s.lstrip("/")\<close> and \<open>s.rstrip("/")\<close>.\<close>

definition lstrip_sep :: "string \<Rightarrow> string" where
  "lstrip_sep s = dropWhile (\<lambda>c. c = CHR ''/'') s"

definition rstrip_sep :: "string \<Rightarrow> string" where
  "rstrip_sep s = rev (dropWhile (\<lambda>c. c = CHR ''/'') (rev s))"

text \<open>\<open>s.split("/")\<close>: the empty string splits into one empty component.\<close>

fun split_sep :: "string \<Rightarrow> string list" where
  "split_sep [] = [[]]"
| "split_sep (c # cs) =
     (if c = CHR ''/'' then [] # split_sep cs
      else (case split_sep cs of [] \<Rightarrow> [[c]] | w # ws \<Rightarrow> (c # w) # ws))"

text \<open>\<open>"/".join(comps)\<close>.\<close>

fun join_sep :: "string list \<Rightarrow> string" where
  "join_sep [] = []"
| "join_sep [x] = x"
| "join_sep (x # y # ys) = x @ CHR ''/'' # join_sep (y # ys)"

text \<open>
  \<open>posixpath.join(a, b)\<close> with one extra argument: an absolute \<open>b\<close> replaces \<open>a\<close>;
  otherwise \<open>b\<close> is appended, with a separator unless \<open>a\<close> is empty or already ends in one.
\<close>

definition path_join :: "string \<Rightarrow> string \<Rightarrow> string" where
  "path_join a b =
     (if startswith b ''/'' then b
      else if a = [] \<or> endswith a ''/'' then a @ b
      else a @ ''/'' @ b)"

text \<open>
  \<open>posixpath.normpath\<close>.  \<open>initial_slashes\<close> is 0, 1 or 2 (exactly two leading slashes are
  kept, three or more collapse to one).  \<open>norm_step\<close> is the body of the loop over the
  components: \<open>new_comps.append\<close> is \<open>acc @ [comp]\<close>, \<open>new_comps.pop()\<close> is \<open>butlast\<close>.
\<close>

definition initial_slashes :: "string \<Rightarrow> nat" where
  "initial_slashes path =
     (if startswith path ''/'' then
        (if startswith path ''//'' \<and> \<not> startswith path ''///'' then 2 else 1)
      else 0)"

definition norm_step :: "nat \<Rightarrow> string list \<Rightarrow> string \<Rightarrow> string list" where
  "norm_step ini acc cmp =
     (if cmp = [] \<or> cmp = ''.'' then acc
      else if cmp \<noteq> ''..'' \<or> (ini = 0 \<and> acc = []) \<or> (acc \<noteq> [] \<and> last acc = ''..'')
        then acc @ [cmp]
      else if acc \<noteq> [] then butlast acc
      else acc)"

definition normpath :: "string \<Rightarrow> string" where
  "normpath path =
     (if path = [] then ''.''
      else
        let ini = initial_slashes path;
            comps = foldl (norm_step ini) [] (split_sep path);
            p = replicate ini (CHR ''/'') @ join_sep comps
        in if p = [] then ''.'' else p)"

section \<open>Path mapper (sync/core/config.py)\<close>

text \<open>\<open>to_abs_under_base(base, rel)\<close>: an absolute \<open>rel\<close> is honoured as it is.\<close>

definition to_abs_under_base :: "string \<Rightarrow> string \<Rightarrow> string" where
  "to_abs_under_base base rel =
     (if startswith rel ''/'' then rel
      else if base = ''/'' then ''/'' @ rel
      else normpath (path_join base rel))"

text \<open>\<open>to_under_hist(hist, rel)\<close>.\<close>

definition to_under_hist :: "string \<Rightarrow> string \<Rightarrow> string" where
  "to_under_hist hist rel = normpath (path_join hist (lstrip_sep rel))"

section \<open>Configuration (sync/core/config.py)\<close>

text \<open>
  \<open>str.isspace\<close> on one character, for the code points below 256, and the two string
  methods the module applies to the environment values: \<open>s.strip()\<close> and \<open>s.split()\<close>
  (split on runs of whitespace, no empty words).
\<close>

definition py_isspace :: "char \<Rightarrow> bool" where
  "py_isspace c =
     (let n = (of_char c :: nat)
      in (9 \<le> n \<and> n \<le> 13) \<or> (28 \<le> n \<and> n \<le> 32) \<or> n = 133 \<or> n = 160)"

definition py_strip :: "string \<Rightarrow> string" where
  "py_strip s = rev (dropWhile py_isspace (rev (dropWhile py_isspace s)))"



text \<open>\<open>s.strip("/")\<close>.\<close>

definition strip_sep :: "string \<Rightarrow> string" where
  "strip_sep s = rstrip_sep (lstrip_sep s)"

text \<open>
  The exceptions of the model.  \<open>OSError\<close> carries its \<open>errno\<close> attribute, which is \<open>None\<close>
  when the exception was raised without one.
\<close>

datatype errno = EPERM | ENOENT | EIO | EACCES | EBUSY | EEXIST | ENOTDIR | EISDIR
  | EINVAL | ENOSPC | EROFS | ENOTEMPTY | ELOOP

datatype py_error = AttributeError | RuntimeError | OSError "errno option"





record settings =
  base :: string
  hist_dir :: string
  branch :: string
  github_pat :: string
  github_repo :: string
  targets :: "string list"
  excludes :: "string list"
  ready_file :: string





section \<open>The daemon (sync/daemon.py)\<close>

text \<open>
  The version-control layer \<open>git_ops\<close> is an external collaborator.  What it answers during
  one pass of the alignment loop is given by the environment: each call either returns or
  raises.  \<open>stop_is_set\<close> is the value of \<open>self._stop.is_set()\<close> read at the top of that pass.
\<close>

record attempt_env =
  stop_is_set :: bool
  remote_is_empty :: "py_error + bool"
  initial_commit_if_needed :: "py_error + unit"
  push :: "py_error + unit"
  fetch_and_checkout :: "py_error + unit"
  rev_parse_head :: "py_error + string"
  rev_parse_origin :: "py_error + string"

text \<open>\<open>_head_matches_origin\<close>: \<open>h1 == h2 and bool(h1)\<close>, and \<open>False\<close> on any exception.\<close>

definition head_matches_origin :: "attempt_env \<Rightarrow> bool" where
  "head_matches_origin a =
     (case rev_parse_head a of
        Inl e \<Rightarrow> False
      | Inr o1 \<Rightarrow>
          (case rev_parse_origin a of
             Inl e \<Rightarrow> False
           | Inr o2 \<Rightarrow> py_strip o1 = py_strip o2 \<and> py_strip o1 \<noteq> []))"

text \<open>The body of the \<open>try\<close> block of one pass: \<open>Inr True\<close> is the \<open>return\<close>.\<close>

definition align_attempt :: "attempt_env \<Rightarrow> py_error + bool" where
  "align_attempt a =
     (case remote_is_empty a of
        Inl e \<Rightarrow> Inl e
      | Inr True \<Rightarrow>
          (case initial_commit_if_needed a of
             Inl e \<Rightarrow> Inl e
           | Inr u \<Rightarrow>
               (case push a of Inl e \<Rightarrow> Inl e | Inr u' \<Rightarrow> Inr (head_matches_origin a)))
      | Inr False \<Rightarrow>
          (case fetch_and_checkout a of
             Inl e \<Rightarrow> Inl e
           | Inr u \<Rightarrow> Inr (head_matches_origin a)))"

text \<open>
  What the daemon does that the claims observe: \<open>time.sleep(n)\<close>, the \<open>return\<close> of
  \<open>ensure_remote_ready\<close> after \<open>_head_matches_origin()\<close> held, the call of
  \<open>link_and_track\<close>, and the call of \<open>pull_commit_push\<close>.
\<close>

datatype event = Sleep nat | AlignVerified | LinkAndTrack | PullCommitPush

text \<open>
  A call returns, raises, or is still running when the environment's script is used up
  (the loops of the daemon have no bound of their own).
\<close>

datatype 'a run_result = Returned 'a | Raised py_error | StillRunning

text \<open>
  The \<open>while not self._stop.is_set()\<close> loop of \<open>ensure_remote_ready\<close>, one environment entry
  per pass.  \<open>except Exception\<close> swallows whatever the pass raised; \<open>time.sleep(3)\<close> follows
  every pass that did not return.  When the flag is set the loop ends and the method
  returns \<open>None\<close> as well.
\<close>

fun align_loop :: "attempt_env list \<Rightarrow> unit run_result \<times> event list" where
  "align_loop [] = (StillRunning, [])"
| "align_loop (a # rest) =
     (if stop_is_set a then (Returned (), [])
      else if align_attempt a = Inr True then (Returned (), [AlignVerified])
      else (case align_loop rest of (r, ev) \<Rightarrow> (r, Sleep 3 # ev)))"

text \<open>
  \<open>ensure_remote_ready\<close>.  \<open>prep\<close> is the outcome of the three calls before the loop
  (\<open>ensure_repo\<close>, \<open>ensure_git_info_exclude\<close>, \<open>set_remote\<close>), which are outside the \<open>try\<close>.
\<close>

definition ensure_remote_ready ::
  "settings \<Rightarrow> py_error + unit \<Rightarrow> attempt_env list \<Rightarrow> unit run_result \<times> event list" where
  "ensure_remote_ready st prep script =
     (if github_repo st = [] \<or> github_pat st = [] then (Raised RuntimeError, [])
      else case prep of
             Inl e \<Rightarrow> (Raised e, [])
           | Inr u \<Rightarrow> align_loop script)"

text \<open>
  One pass of the periodic loop of \<open>run\<close>: the flag at the top of the pass, the outcome of
  \<open>pull_commit_push\<close>, and after how many one-second sleeps of the wait the flag is found set
  (\<open>None\<close>: not during this wait).
\<close>

record cycle_env =
  stop_at_top :: bool
  cycle_outcome :: "py_error + unit"
  stop_after_ticks :: "nat option"

definition wait_ticks :: "nat \<Rightarrow> cycle_env \<Rightarrow> nat" where
  "wait_ticks interval c =
     (case stop_after_ticks c of None \<Rightarrow> interval | Some k \<Rightarrow> min k interval)"

fun sync_loop :: "nat \<Rightarrow> cycle_env list \<Rightarrow> int run_result \<times> event list" where
  "sync_loop interval [] = (StillRunning, [])"
| "sync_loop interval (c # cs) =
     (if stop_at_top c then (Returned 0, [])
      else case cycle_outcome c of
             Inl e \<Rightarrow> (Raised e, [PullCommitPush])
           | Inr u \<Rightarrow>
               (case sync_loop interval cs of
                  (r, ev) \<Rightarrow>
                    (r, PullCommitPush # replicate (wait_ticks interval c) (Sleep 1) @ ev)))"

text \<open>
  \<open>SyncDaemon.run\<close>: \<open>ensure_remote_ready()\<close>, then \<open>link_and_track()\<close> whenever the former
  returned, then the periodic loop.  \<open>link_outcome\<close> is what \<open>link_and_track\<close> does.
\<close>

definition run ::
  "settings \<Rightarrow> nat \<Rightarrow> py_error + unit \<Rightarrow> attempt_env list \<Rightarrow> py_error + unit \<Rightarrow>
   cycle_env list \<Rightarrow> int run_result \<times> event list" where
  "run st interval prep script link_outcome cycles =
     (case ensure_remote_ready st prep script of
        (Raised e, ev) \<Rightarrow> (Raised e, ev)
      | (StillRunning, ev) \<Rightarrow> (StillRunning, ev)
      | (Returned u, ev) \<Rightarrow>
          (case link_outcome of
             Inl e \<Rightarrow> (Raised e, ev @ [LinkAndTrack])
           | Inr u' \<Rightarrow>
               (case sync_loop interval cycles of
                  (r, ev') \<Rightarrow> (r, ev @ LinkAndTrack # ev'))))"

section \<open>The file system\<close>

text \<open>
  The state the linker works on is a table from absolute paths (lists of components, the
  root being \<open>[]\<close>) to nodes.  A regular file carries its content and its modification time
  (\<open>rsync\<close> compares sizes and times), a symbolic link carries the target string it was
  created with.  The root is a directory and has no row of its own.

  Paths are resolved lexically: a path names the row stored under its normalised component
  list, and only the last component is followed when it is a symbolic link (as
  \<open>os.path.exists\<close>, \<open>isdir\<close> and \<open>isfile\<close> do).  A path that has a symbolic link among its
  proper ancestors is outside the model.
\<close>

type_synonym path = "string list"

datatype node = File string nat | Dir | Link string

type_synonym entries = "(path \<times> node) list"

text \<open>
  What the program cannot change: the working directory, which operations the system
  refuses (\<open>deny w p = Some e\<close>: creating, removing or renaming the entry \<open>p\<close> fails with
  \<open>errno\<close> \<open>e\<close>), the answer of \<open>os.access(p, os.W_OK)\<close>, whether \<open>shutil.which("rsync")\<close>
  finds the program, and the clock that stamps new files.
\<close>

record world =
  cwd :: path
  deny :: "path \<Rightarrow> errno option"
  access_w :: "path \<Rightarrow> bool"
  rsync_available :: bool
  now :: nat

definition lookup :: "entries \<Rightarrow> path \<Rightarrow> node option" where
  "lookup es p = (if p = [] then Some Dir else map_of es p)"

fun upd :: "path \<Rightarrow> node \<Rightarrow> entries \<Rightarrow> entries" where
  "upd p n [] = [(p, n)]"
| "upd p n ((q, m) # es) = (if q = p then (p, n) # es else (q, m) # upd p n es)"

definition del :: "path \<Rightarrow> entries \<Rightarrow> entries" where
  "del p es = filter (\<lambda>(q, n). q \<noteq> p) es"

definition children :: "entries \<Rightarrow> path \<Rightarrow> string list" where
  "children es d = map (\<lambda>(q, n). last q) (filter (\<lambda>(q, n). q \<noteq> [] \<and> butlast q = d) es)"

text \<open>
  From a path string to the component list: \<open>.\<close> and empty components are dropped and
  \<open>..\<close> steps back, as in \<open>normpath\<close> on an absolute path; a relative string starts at
  \<open>cur\<close>.  \<open>abs_str\<close> is the canonical string of a component list.
\<close>

definition walk_from :: "path \<Rightarrow> string \<Rightarrow> path" where
  "walk_from cur s = foldl (norm_step 1) (if startswith s ''/'' then [] else cur) (split_sep s)"

definition path_of :: "world \<Rightarrow> string \<Rightarrow> path" where
  "path_of w s = walk_from (cwd w) s"

definition abs_str :: "path \<Rightarrow> string" where
  "abs_str p = CHR ''/'' # join_sep p"

text \<open>
  Following the symbolic links at the end of a path, at most \<open>n\<close> of them: \<open>follow\<close> gives
  the node reached (\<open>None\<close>: nothing there, or too many links), \<open>final_path\<close> the path a
  file opened for writing would be created at.
\<close>

fun follow :: "nat \<Rightarrow> entries \<Rightarrow> path \<Rightarrow> (path \<times> node) option" where
  "follow 0 es p = None"
| "follow (Suc n) es p =
     (case lookup es p of
        None \<Rightarrow> None
      | Some (Link t) \<Rightarrow> follow n es (walk_from (butlast p) t)
      | Some nd \<Rightarrow> Some (p, nd))"

fun final_path :: "nat \<Rightarrow> entries \<Rightarrow> path \<Rightarrow> path option" where
  "final_path 0 es p = None"
| "final_path (Suc n) es p =
     (case lookup es p of
        Some (Link t) \<Rightarrow> final_path n es (walk_from (butlast p) t)
      | _ \<Rightarrow> Some p)"

definition stat :: "entries \<Rightarrow> path \<Rightarrow> (path \<times> node) option" where
  "stat es p = follow (Suc 40) es p"

text \<open>
  A call on the file system returns a value or raises, and leaves a state behind in both
  cases.
\<close>

type_synonym 'a io = "entries \<Rightarrow> (py_error + 'a) \<times> entries"

definition ret :: "'a \<Rightarrow> 'a io" where
  "ret x es = (Inr x, es)"

definition and_then :: "'a io \<Rightarrow> ('a \<Rightarrow> 'b io) \<Rightarrow> 'b io" where
  "and_then m f es = (case m es of (Inl e, es') \<Rightarrow> (Inl e, es') | (Inr x, es') \<Rightarrow> f x es')"

fun for_each :: "('a \<Rightarrow> unit io) \<Rightarrow> 'a list \<Rightarrow> unit io" where
  "for_each body [] es = (Inr (), es)"
| "for_each body (x # xs) es =
     (case body x es of (Inl e, es') \<Rightarrow> (Inl e, es') | (Inr u, es') \<Rightarrow> for_each body xs es')"

text \<open>A system call either fails and changes nothing, or succeeds with a new table.\<close>

definition lift :: "py_error + entries \<Rightarrow> unit io" where
  "lift r es = (case r of Inl e \<Rightarrow> (Inl e, es) | Inr es' \<Rightarrow> (Inr (), es'))"

text \<open>\<open>try: ... except OSError: pass\<close> around one system call.\<close>

definition ignoring :: "unit io \<Rightarrow> entries \<Rightarrow> entries" where
  "ignoring m es = (case m es of (Inl (OSError eno), es') \<Rightarrow> es' | (r, es') \<Rightarrow> es')"

subsection \<open>System calls\<close>

text \<open>
  Creating an entry (\<open>mkdir\<close>, \<open>symlink\<close>, \<open>open\<close> with \<open>O_CREAT\<close>): the parent has to be a
  directory, the name free, and the system willing.
\<close>

definition create :: "world \<Rightarrow> path \<Rightarrow> node \<Rightarrow> entries \<Rightarrow> py_error + entries" where
  "create w p n es =
     (case lookup es (butlast p) of
        None \<Rightarrow> Inl (OSError (Some ENOENT))
      | Some Dir \<Rightarrow>
          (if lookup es p \<noteq> None then Inl (OSError (Some EEXIST))
           else case deny w p of
                  Some e \<Rightarrow> Inl (OSError (Some e))
                | None \<Rightarrow> Inr (upd p n es))
      | Some other \<Rightarrow> Inl (OSError (Some ENOTDIR)))"

definition sys_unlink :: "world \<Rightarrow> path \<Rightarrow> entries \<Rightarrow> py_error + entries" where
  "sys_unlink w p es =
     (case lookup es p of
        None \<Rightarrow> Inl (OSError (Some ENOENT))
      | Some Dir \<Rightarrow> Inl (OSError (Some EISDIR))
      | Some other \<Rightarrow>
          (case deny w p of
             Some e \<Rightarrow> Inl (OSError (Some e))
           | None \<Rightarrow> Inr (del p es)))"

text \<open>
  \<open>rename(s, t)\<close> of a file or link: an existing file or link at \<open>t\<close> is replaced.
\<close>

definition sys_rename :: "world \<Rightarrow> path \<Rightarrow> path \<Rightarrow> entries \<Rightarrow> py_error + entries" where
  "sys_rename w s t es =
     (case lookup es s of
        None \<Rightarrow> Inl (OSError (Some ENOENT))
      | Some n \<Rightarrow>
          (case lookup es (butlast t) of
             None \<Rightarrow> Inl (OSError (Some ENOENT))
           | Some Dir \<Rightarrow>
               (if lookup es t = Some Dir \<and> n \<noteq> Dir then Inl (OSError (Some EISDIR))
                else if lookup es t \<noteq> None \<and> lookup es t \<noteq> Some Dir \<and> n = Dir
                  then Inl (OSError (Some ENOTDIR))
                else if n = Dir then Inl (OSError (Some EINVAL))
                else case deny w s of
                       Some e \<Rightarrow> Inl (OSError (Some e))
                     | None \<Rightarrow>
                         (case deny w t of
                            Some e \<Rightarrow> Inl (OSError (Some e))
                          | None \<Rightarrow> Inr (upd t n (del s es))))
           | Some other \<Rightarrow> Inl (OSError (Some ENOTDIR))))"

subsection \<open>The library calls of the linker\<close>

definition os_path_islink :: "world \<Rightarrow> entries \<Rightarrow> string \<Rightarrow> bool" where
  "os_path_islink w es s = (case lookup es (path_of w s) of Some (Link t) \<Rightarrow> True | _ \<Rightarrow> False)"

definition os_readlink :: "world \<Rightarrow> entries \<Rightarrow> string \<Rightarrow> string option" where
  "os_readlink w es s = (case lookup es (path_of w s) of Some (Link t) \<Rightarrow> Some t | _ \<Rightarrow> None)"

definition os_path_lexists :: "world \<Rightarrow> entries \<Rightarrow> string \<Rightarrow> bool" where
  "os_path_lexists w es s = (lookup es (path_of w s) \<noteq> None)"

definition os_path_exists :: "world \<Rightarrow> entries \<Rightarrow> string \<Rightarrow> bool" where
  "os_path_exists w es s = (stat es (path_of w s) \<noteq> None)"

definition os_path_isdir :: "world \<Rightarrow> entries \<Rightarrow> string \<Rightarrow> bool" where
  "os_path_isdir w es s = (case stat es (path_of w s) of Some (q, Dir) \<Rightarrow> True | _ \<Rightarrow> False)"

definition os_path_isfile :: "world \<Rightarrow> entries \<Rightarrow> string \<Rightarrow> bool" where
  "os_path_isfile w es s =
     (case stat es (path_of w s) of Some (q, File c m) \<Rightarrow> True | _ \<Rightarrow> False)"

definition os_access_w :: "world \<Rightarrow> string \<Rightarrow> bool" where
  "os_access_w w s = access_w w (path_of w s)"

text \<open>\<open>os.path.dirname\<close>.\<close>

definition dirname :: "string \<Rightarrow> string" where
  "dirname s =
     (let head = rev (dropWhile (\<lambda>c. c \<noteq> CHR ''/'') (rev s))
      in if head \<noteq> [] \<and> head \<noteq> replicate (length head) (CHR ''/'') then rstrip_sep head
         else head)"

definition os_listdir :: "world \<Rightarrow> entries \<Rightarrow> string \<Rightarrow> py_error + string list" where
  "os_listdir w es s =
     (case stat es (path_of w s) of
        None \<Rightarrow> Inl (OSError (Some ENOENT))
      | Some (q, Dir) \<Rightarrow> Inr (children es q)
      | Some (q, other) \<Rightarrow> Inl (OSError (Some ENOTDIR)))"

definition os_symlink :: "world \<Rightarrow> string \<Rightarrow> string \<Rightarrow> unit io" where
  "os_symlink w target s es = lift (create w (path_of w s) (Link target) es) es"

text \<open>\<open>os.unlink\<close> and \<open>os.remove\<close> are the same call.\<close>

definition os_unlink :: "world \<Rightarrow> string \<Rightarrow> unit io" where
  "os_unlink w s es = lift (sys_unlink w (path_of w s) es) es"

definition os_remove :: "world \<Rightarrow> string \<Rightarrow> unit io" where
  "os_remove w s es = os_unlink w s es"

text \<open>
  \<open>os.makedirs(name, exist_ok=True)\<close>, on the reversed component list: when the parent
  does not exist it is made first (a \<open>FileExistsError\<close> from that is passed over), then
  \<open>mkdir(name)\<close>; an \<open>OSError\<close> of \<open>mkdir\<close> is dropped when \<open>name\<close> is a directory.
\<close>

fun makedirs_r :: "world \<Rightarrow> string list \<Rightarrow> unit io" where
  "makedirs_r w [] es = (Inr (), es)"
| "makedirs_r w (c # rp) es =
     (case (if stat es (rev rp) = None then makedirs_r w rp es else (Inr (), es)) of
        (Inl e, es1) \<Rightarrow>
          (if e = OSError (Some EEXIST) then
             (case create w (rev (c # rp)) Dir es1 of
                Inr es2 \<Rightarrow> (Inr (), es2)
              | Inl e' \<Rightarrow>
                  (case stat es1 (rev (c # rp)) of
                     Some (q, Dir) \<Rightarrow> (Inr (), es1)
                   | _ \<Rightarrow> (Inl e', es1)))
           else (Inl e, es1))
      | (Inr u, es1) \<Rightarrow>
          (case create w (rev (c # rp)) Dir es1 of
             Inr es2 \<Rightarrow> (Inr (), es2)
           | Inl e' \<Rightarrow>
               (case stat es1 (rev (c # rp)) of
                  Some (q, Dir) \<Rightarrow> (Inr (), es1)
                | _ \<Rightarrow> (Inl e', es1))))"

definition os_makedirs :: "world \<Rightarrow> string \<Rightarrow> unit io" where
  "os_makedirs w s es =
     (if s = [] then (Inl (OSError (Some ENOENT)), es) else makedirs_r w (rev (path_of w s)) es)"

text \<open>
  \<open>shutil.rmtree\<close>.  An entry below the tree is \<open>stuck\<close> when the system refuses to remove
  it or something beneath it.  With \<open>ignore_errors=True\<close> everything that is not stuck
  goes, in whatever order the directories are read.  Without it the call raises at the
  first refusal; the order in which \<open>rmtree\<close> reads a directory is not specified, and the
  model takes the one that walks straight to the first refused entry \<open>r\<close> that has no
  refused entry beneath it: what lies beneath \<open>r\<close> is removed, then removing \<open>r\<close> raises.
  On a symbolic link \<open>rmtree\<close> raises an \<open>OSError\<close> without \<open>errno\<close>.
\<close>

definition stuck :: "world \<Rightarrow> entries \<Rightarrow> path \<Rightarrow> bool" where
  "stuck w es q = list_ex (\<lambda>(r, n). prefix q r \<and> deny w r \<noteq> None) es"

definition shutil_rmtree_ignore_errors :: "world \<Rightarrow> string \<Rightarrow> entries \<Rightarrow> entries" where
  "shutil_rmtree_ignore_errors w s es =
     (let p = path_of w s
      in case lookup es p of
           Some Dir \<Rightarrow> filter (\<lambda>(q, n). \<not> prefix p q \<or> stuck w es q) es
         | _ \<Rightarrow> es)"

definition shutil_rmtree :: "world \<Rightarrow> string \<Rightarrow> unit io" where
  "shutil_rmtree w s es =
     (let p = path_of w s
      in case lookup es p of
           None \<Rightarrow> (Inl (OSError (Some ENOENT)), es)
         | Some (Link t) \<Rightarrow> (Inl (OSError None), es)
         | Some (File c m) \<Rightarrow> (Inl (OSError (Some ENOTDIR)), es)
         | Some Dir \<Rightarrow>
             (case find (\<lambda>(r, n). prefix p r \<and> deny w r \<noteq> None \<and>
                       \<not> list_ex (\<lambda>(r', n'). strict_prefix r r' \<and> deny w r' \<noteq> None) es) es of
                None \<Rightarrow> (Inr (), filter (\<lambda>(q, n). \<not> prefix p q) es)
              | Some (r, n) \<Rightarrow>
                  (Inl (OSError (deny w r)), filter (\<lambda>(q, n). \<not> strict_prefix r q) es)))"

text \<open>
  Writing a file through a path: the links at the end of the path are followed, a missing
  file is created, an existing one gets the new content.
\<close>

definition write_file :: "world \<Rightarrow> path \<Rightarrow> string \<Rightarrow> nat \<Rightarrow> unit io" where
  "write_file w t c m es =
     (case final_path (Suc 40) es t of
        None \<Rightarrow> (Inl (OSError (Some ELOOP)), es)
      | Some f \<Rightarrow>
          (case lookup es f of
             None \<Rightarrow> lift (create w f (File c m) es) es
           | Some Dir \<Rightarrow> (Inl (OSError (Some EISDIR)), es)
           | Some other \<Rightarrow> (Inr (), upd f (File c m) es)))"

text \<open>
  \<open>shutil.copy2(s, t)\<close> for a \<open>t\<close> that is not an existing directory (the linker calls it
  only after \<open>os.path.exists(t)\<close> was false): content and modification time of the file
  \<open>s\<close> leads to.
\<close>

definition shutil_copy2 :: "world \<Rightarrow> string \<Rightarrow> string \<Rightarrow> unit io" where
  "shutil_copy2 w s t es =
     (case stat es (path_of w s) of
        None \<Rightarrow> (Inl (OSError (Some ENOENT)), es)
      | Some (q, File c m) \<Rightarrow> write_file w (path_of w t) c m es
      | Some (q, other) \<Rightarrow> (Inl (OSError (Some EISDIR)), es))"

text \<open>
  \<open>shutil.move(s, t)\<close> of something that is not a directory, to a \<open>t\<close> that is not an
  existing directory: \<open>os.rename\<close>, and when that raises an \<open>OSError\<close>, \<open>copy2\<close> followed by
  \<open>os.unlink(s)\<close> (a symbolic link is recreated at \<open>t\<close> instead of copied).
\<close>

definition shutil_move :: "world \<Rightarrow> string \<Rightarrow> string \<Rightarrow> unit io" where
  "shutil_move w s t es =
     (case sys_rename w (path_of w s) (path_of w t) es of
        Inr es' \<Rightarrow> (Inr (), es')
      | Inl e \<Rightarrow>
          (case lookup es (path_of w s) of
             Some (Link tgt) \<Rightarrow> and_then (os_symlink w tgt t) (\<lambda>u. os_unlink w s) es
           | Some Dir \<Rightarrow> (Inl e, es)
           | _ \<Rightarrow> and_then (shutil_copy2 w s t) (\<lambda>u. os_unlink w s) es))"

text \<open>\<open>open(p, "a").close()\<close>: creates an empty file when there is none.\<close>

definition open_append_close :: "world \<Rightarrow> string \<Rightarrow> unit io" where
  "open_append_close w s es =
     (case final_path (Suc 40) es (path_of w s) of
        None \<Rightarrow> (Inl (OSError (Some ELOOP)), es)
      | Some f \<Rightarrow>
          (case lookup es f of
             None \<Rightarrow> lift (create w f (File [] (now w)) es) es
           | Some Dir \<Rightarrow> (Inl (OSError (Some EISDIR)), es)
           | Some other \<Rightarrow> (Inr (), es)))"

text \<open>
  \<open>os.walk(start)\<close>, top-down and without following links: one triple per directory at or
  below \<open>start\<close>, with the path string \<open>os.walk\<close> builds for it (\<open>start\<close> joined with the names
  on the way down), the names of its subdirectories and the names of its other entries.
  The triples are computed from the table at the time of the call; the linker's loop
  bodies only add entries where the walk does not read again.
\<close>

definition os_walk :: "world \<Rightarrow> entries \<Rightarrow> string \<Rightarrow> (string \<times> string list \<times> string list) list" where
  "os_walk w es start =
     (let tp = path_of w start
      in if lookup es tp = Some Dir then
           map (\<lambda>(q, n).
                  (foldl path_join start (drop (length tp) q),
                   filter (\<lambda>c. case stat es (q @ [c]) of Some (r, Dir) \<Rightarrow> True | _ \<Rightarrow> False)
                     (children es q),
                   filter (\<lambda>c. case stat es (q @ [c]) of Some (r, Dir) \<Rightarrow> False | _ \<Rightarrow> True)
                     (children es q)))
             (filter (\<lambda>(q, n). n = Dir \<and> prefix tp q) ((tp, Dir) # filter (\<lambda>(q, n). q \<noteq> tp) es))
         else [])"

text \<open>
  \<open>os.path.relpath(p, start)\<close>: both made absolute and split into components, the common
  prefix dropped, one \<open>..\<close> for each component of \<open>start\<close> that is left.
\<close>

definition relpath :: "world \<Rightarrow> string \<Rightarrow> string \<Rightarrow> string" where
  "relpath w p start =
     (let sl = path_of w start; pl = path_of w p;
          i = length (longest_common_prefix sl pl);
          rl = replicate (length sl - i) ''..'' @ drop i pl
      in if rl = [] then ''.'' else join_sep rl)"

text \<open>
  \<open>rsync -a src/ dst/\<close>, as far as the table shows it: every entry below \<open>src\<close> is
  transferred to the same place below \<open>dst\<close>, parents first.  A directory is created
  unless there is one; a file is skipped when the destination is a file of the same size
  and modification time (the quick check) and written over it otherwise; a link is
  recreated unless the same link is there.  A non-empty directory in the way of a file or
  link stays.  An entry the system refuses is reported and skipped; the linker runs
  \<open>rsync\<close> with \<open>check=False\<close> and does not look at its exit status.
\<close>

definition rsync_put :: "world \<Rightarrow> path \<Rightarrow> node \<Rightarrow> entries \<Rightarrow> entries" where
  "rsync_put w t n es =
     (if lookup es (butlast t) = Some Dir \<and> deny w t = None then upd t n es else es)"

definition rsync_item :: "world \<Rightarrow> path \<Rightarrow> path \<Rightarrow> entries \<Rightarrow> path \<times> node \<Rightarrow> entries" where
  "rsync_item w sp dp es item =
     (case item of
        (q, n) \<Rightarrow>
          (let t = dp @ drop (length sp) q
           in case n of
                Dir \<Rightarrow> (if lookup es t = Some Dir then es else rsync_put w t Dir es)
              | File c m \<Rightarrow>
                  (case lookup es t of
                     Some (File c' m') \<Rightarrow>
                       (if length c' = length c \<and> m' = m then es else rsync_put w t (File c m) es)
                   | Some Dir \<Rightarrow> (if children es t = [] then rsync_put w t (File c m) es else es)
                   | _ \<Rightarrow> rsync_put w t (File c m) es)
              | Link tgt \<Rightarrow>
                  (case lookup es t of
                     Some (Link tgt') \<Rightarrow> (if tgt' = tgt then es else rsync_put w t (Link tgt) es)
                   | Some Dir \<Rightarrow> (if children es t = [] then rsync_put w t (Link tgt) es else es)
                   | _ \<Rightarrow> rsync_put w t (Link tgt) es)))"

definition rsync_a :: "world \<Rightarrow> string \<Rightarrow> string \<Rightarrow> unit io" where
  "rsync_a w src dst es =
     (let sp = path_of w src; dp = path_of w dst
      in (Inr (), foldl (rsync_item w sp dp) es
                    (sort_key (\<lambda>(q, n). length q) (filter (\<lambda>(q, n). strict_prefix sp q) es))))"

section \<open>The linker (sync/core/linker.py)\<close>

text \<open>\<open>ensure_symlink(src, dst)\<close>.\<close>

definition ensure_symlink :: "world \<Rightarrow> string \<Rightarrow> string \<Rightarrow> unit io" where
  "ensure_symlink w src dst =
     and_then (if dirname src \<noteq> [] then os_makedirs w (dirname src) else ret ())
       (\<lambda>u es.
          if os_path_islink w es src then
            (if os_readlink w es src = Some dst then (Inr (), es)
             else and_then (os_unlink w src) (\<lambda>u. os_symlink w dst src) es)
          else if os_path_exists w es src then
            and_then (if os_path_isdir w es src then shutil_rmtree w src else os_remove w src)
              (\<lambda>u. os_symlink w dst src) es
          else os_symlink w dst src es)"

text \<open>
  \<open>_link_dir_contents_in_place(src_dir, dst_dir)\<close>.  \<open>clear_child\<close> is the body of the first
  loop (an \<open>os.unlink\<close> that raised is tried again as \<open>os.remove\<close>, then given up),
  \<open>link_child\<close> the body of the second.
\<close>

definition clear_child :: "world \<Rightarrow> string \<Rightarrow> entries \<Rightarrow> string \<Rightarrow> entries" where
  "clear_child w src_dir es name =
     (let s = path_join src_dir name
      in if os_path_islink w es s \<or> os_path_isfile w es s then
           (case os_unlink w s es of
              (Inl (OSError eno), es1) \<Rightarrow> ignoring (os_remove w s) es1
            | (r, es1) \<Rightarrow> es1)
         else if os_path_isdir w es s then shutil_rmtree_ignore_errors w s es
         else es)"

definition link_child :: "world \<Rightarrow> string \<Rightarrow> string \<Rightarrow> entries \<Rightarrow> string \<Rightarrow> entries" where
  "link_child w src_dir dst_dir es name =
     (let s = path_join src_dir name; d = path_join dst_dir name;
          es1 = (if os_path_lexists w es s then
                   (if os_path_islink w es s then ignoring (os_unlink w s) es
                    else if os_path_isdir w es s then shutil_rmtree_ignore_errors w s es
                    else ignoring (os_remove w s) es)
                 else es)
      in ignoring (os_symlink w d s) es1)"

definition link_dir_contents_in_place :: "world \<Rightarrow> string \<Rightarrow> string \<Rightarrow> unit io" where
  "link_dir_contents_in_place w src_dir dst_dir =
     and_then (os_makedirs w dst_dir)
       (\<lambda>u. and_then
          (\<lambda>es. if os_path_isdir w es src_dir then
                  (case os_listdir w es src_dir of
                     Inl e \<Rightarrow> (Inl e, es)
                   | Inr names \<Rightarrow> (Inr (), foldl (clear_child w src_dir) es names))
                else os_makedirs w src_dir es)
          (\<lambda>u es.
             case os_listdir w es dst_dir of
               Inl e \<Rightarrow>
                 (if e = OSError (Some ENOENT) then (Inr (), es) else (Inl e, es))
             | Inr dst_entries \<Rightarrow>
                 (Inr (), foldl (link_child w src_dir dst_dir) es dst_entries)))"

text \<open>
  The merge of a live directory into the history directory when \<open>rsync\<close> is not there:
  the loop over \<open>os.walk(src)\<close>, \<open>copy_dir\<close> being its body.
\<close>

definition copy_dir :: "world \<Rightarrow> string \<Rightarrow> string \<Rightarrow> string \<times> string list \<times> string list \<Rightarrow> unit io" where
  "copy_dir w src dst triple =
     (case triple of
        (root, dirs, files) \<Rightarrow>
          (let relp = relpath w root src;
               dstd = (if relp \<noteq> ''.'' then path_join dst relp else dst)
           in and_then (os_makedirs w dstd)
                (\<lambda>u. for_each
                   (\<lambda>fn es.
                      if \<not> os_path_exists w es (path_join dstd fn)
                      then shutil_copy2 w (path_join root fn) (path_join dstd fn) es
                      else (Inr (), es))
                   files)))"

definition copy_tree :: "world \<Rightarrow> string \<Rightarrow> string \<Rightarrow> unit io" where
  "copy_tree w src dst es = for_each (copy_dir w src dst) (os_walk w es src) es"

text \<open>
  The end of the directory branch of \<open>migrate_and_link\<close> (from \<open>shutil.rmtree\<close> to the
  \<open>raise\<close>): the live directory is removed and replaced with a link, and when
  \<open>ensure_symlink\<close> raises an \<open>OSError\<close> with \<open>EPERM\<close> or \<open>EACCES\<close>, or the parent is not
  writable, its children are linked in place instead.
\<close>

definition replace_dir_with_link :: "world \<Rightarrow> string \<Rightarrow> string \<Rightarrow> unit io" where
  "replace_dir_with_link w src dst es =
     (case ensure_symlink w src dst (shutil_rmtree_ignore_errors w src es) of
        (Inl (OSError eno), es2) \<Rightarrow>
          (let parent = (if dirname src = [] then ''/'' else dirname src);
               parent_writable = os_access_w w parent
           in if eno = Some EPERM \<or> eno = Some EACCES \<or> \<not> parent_writable
              then link_dir_contents_in_place w src dst es2
              else (Inl (OSError eno), es2))
      | r \<Rightarrow> r)"

text \<open>
  The body of the loop of \<open>migrate_and_link\<close> for one target, and the loop.  An exception
  ends the loop and leaves the function.
\<close>

definition migrate_target :: "world \<Rightarrow> string \<Rightarrow> string \<Rightarrow> string \<Rightarrow> unit io" where
  "migrate_target w base_root hist rel =
     (let rel_clean = rstrip_sep rel;
          src = to_abs_under_base base_root rel_clean;
          dst = to_under_hist hist rel_clean
      in and_then (os_makedirs w (dirname dst))
           (\<lambda>u es.
              if os_path_islink w es src then ensure_symlink w src dst es
              else if os_path_isdir w es src then
                and_then (os_makedirs w dst)
                  (\<lambda>u. and_then
                     (if rsync_available w then rsync_a w src dst else copy_tree w src dst)
                     (\<lambda>u. replace_dir_with_link w src dst)) es
              else if os_path_isfile w es src then
                and_then
                  (if \<not> os_path_exists w es dst
                   then and_then (os_makedirs w (dirname dst)) (\<lambda>u. shutil_move w src dst)
                   else os_remove w src)
                  (\<lambda>u. ensure_symlink w src dst) es
              else
                and_then
                  (if endswith rel ''/'' then os_makedirs w dst
                   else and_then (os_makedirs w (dirname dst))
                          (\<lambda>u es1. if \<not> os_path_exists w es1 dst then open_append_close w dst es1
                                   else (Inr (), es1)))
                  (\<lambda>u. ensure_symlink w src dst) es))"

definition migrate_and_link :: "world \<Rightarrow> string \<Rightarrow> string \<Rightarrow> string list \<Rightarrow> unit io" where
  "migrate_and_link w base_root hist rel_targets =
     for_each (migrate_target w base_root hist) rel_targets"

text \<open>
  \<open>track_empty_dirs\<close>.  \<open>is_excluded\<close> comes from \<open>sync/core/blacklist.py\<close> and is a
  parameter here.  \<open>lstrip_dot_sep\<close> is \<open>s.lstrip("./")\<close>, which drops every leading
  character that is a dot or a separator; \<open>contains\<close> is the \<open>in\<close> of two strings.
\<close>

definition lstrip_dot_sep :: "string \<Rightarrow> string" where
  "lstrip_dot_sep s = dropWhile (\<lambda>c. c = CHR ''.'' \<or> c = CHR ''/'') s"

fun contains :: "string \<Rightarrow> string \<Rightarrow> bool" where
  "contains [] sub = (sub = [])"
| "contains (c # cs) sub = (startswith (c # cs) sub \<or> contains cs sub)"

fun track_walk ::
  "world \<Rightarrow> (string \<Rightarrow> string list \<Rightarrow> bool) \<Rightarrow> string \<Rightarrow> string list \<Rightarrow> string list \<Rightarrow> nat \<Rightarrow>
   nat io" where
  "track_walk w is_excluded hist excl [] written es = (Inr written, es)"
| "track_walk w is_excluded hist excl (d # ds) written es =
     (let rel_under_hist = lstrip_dot_sep (relpath w d hist)
      in if is_excluded rel_under_hist excl then track_walk w is_excluded hist excl ds written es
         else if contains (''/'' @ rel_under_hist @ ''/'') ''/.git/''
           then track_walk w is_excluded hist excl ds written es
         else case os_listdir w es d of
                Inl e \<Rightarrow> (Inl e, es)
              | Inr names \<Rightarrow>
                  (if names = [] then
                     (if \<not> os_path_exists w es (path_join d ''.gitkeep'') then
                        (case open_append_close w (path_join d ''.gitkeep'') es of
                           (Inl e, es') \<Rightarrow> (Inl e, es')
                         | (Inr u, es') \<Rightarrow>
                             track_walk w is_excluded hist excl ds (written + 1) es')
                      else track_walk w is_excluded hist excl ds written es)
                   else track_walk w is_excluded hist excl ds written es))"

fun track_targets ::
  "world \<Rightarrow> (string \<Rightarrow> string list \<Rightarrow> bool) \<Rightarrow> string \<Rightarrow> string list \<Rightarrow> string list \<Rightarrow> nat \<Rightarrow>
   nat io" where
  "track_targets w is_excluded hist excl [] written es = (Inr written, es)"
| "track_targets w is_excluded hist excl (rel # rels) written es =
     (let root = to_under_hist hist (rstrip_sep rel)
      in if os_path_isdir w es root then
           (case track_walk w is_excluded hist excl (map fst (os_walk w es root)) written es of
              (Inl e, es') \<Rightarrow> (Inl e, es')
            | (Inr written', es') \<Rightarrow> track_targets w is_excluded hist excl rels written' es')
         else track_targets w is_excluded hist excl rels written es)"

definition track_empty_dirs ::
  "world \<Rightarrow> (string \<Rightarrow> string list \<Rightarrow> bool) \<Rightarrow> string \<Rightarrow> string list \<Rightarrow> string list \<Rightarrow> nat io" where
  "track_empty_dirs w is_excluded hist rel_targets excl =
     track_targets w is_excluded hist excl rel_targets 0"

text \<open>
  Modelled from the spec: \<open>is_excluded\<close> of \<open>sync/core/blacklist.py\<close>, which is not among
  the sources.  An exclude rule is a path or path prefix relative to the history root: a
  path is excluded when it is one of the rules or lies below one.
\<close>

definition is_excluded :: "string \<Rightarrow> string list \<Rightarrow> bool" where
  "is_excluded rel excl =
     list_ex (\<lambda>e. strip_sep e \<noteq> [] \<and>
                (rel = strip_sep e \<or> startswith rel (strip_sep e @ ''/''))) excl"

section \<open>Auxiliary notions and concrete inputs\<close>

text \<open>
  A component \<open>normpath\<close> keeps, and the shape of the component list it builds: \<open>..\<close>
  components only at the front, and only in a relative path.
\<close>

definition good_comp :: "string \<Rightarrow> bool" where
  "good_comp c = (c \<noteq> [] \<and> c \<noteq> ''.'' \<and> CHR ''/'' \<notin> set c)"

definition nf :: "nat \<Rightarrow> string list \<Rightarrow> bool" where
  "nf ini acc = (\<forall>i < length acc. good_comp (acc ! i) \<and>
       (acc ! i = ''..'' \<longrightarrow> ini = 0 \<and> (\<forall>j<i. acc ! j = ''..'')))"

text \<open>
  A canonical path has only proper names as components.  \<open>real_dir\<close>: the path and all its
  ancestors are directories of the table.  A table is well formed when its rows have
  canonical paths and every row's parent is a directory.
\<close>

definition canon :: "path \<Rightarrow> bool" where
  "canon p = list_all (\<lambda>c. good_comp c \<and> c \<noteq> ''..'') p"

definition real_dir :: "entries \<Rightarrow> path \<Rightarrow> bool" where
  "real_dir es p = list_all (\<lambda>q. lookup es q = Some Dir) (prefixes p)"



text \<open>A pass of the alignment loop after which the loop goes on.\<close>

definition retrying :: "attempt_env \<Rightarrow> bool" where
  "retrying a = (\<not> stop_is_set a \<and> align_attempt a \<noteq> Inr True)"

text \<open>A configured daemon, and passes of the alignment loop.\<close>

definition st0 :: settings where
  "st0 = \<lparr>base = ''/'', hist_dir = ''/h'', branch = ''main'', github_pat = ''tok'',
     github_repo = ''o/r'', targets = [''data/''], excludes = [], ready_file = ''/h/.sync.ready''\<rparr>"

definition pass_fetch_fails :: attempt_env where
  "pass_fetch_fails = \<lparr>stop_is_set = False, remote_is_empty = Inr False,
     initial_commit_if_needed = Inr (), push = Inr (), fetch_and_checkout = Inl (OSError (Some EIO)),
     rev_parse_head = Inr ''abc'', rev_parse_origin = Inr ''abc''\<rparr>"


definition pass_cancelled :: attempt_env where
  "pass_cancelled = pass_fetch_fails\<lparr>stop_is_set := True\<rparr>"

definition cycle_stopped :: cycle_env where
  "cycle_stopped = \<lparr>stop_at_top = True, cycle_outcome = Inr (), stop_after_ticks = None\<rparr>"

text \<open>
  Two systems that refuse nothing, with and without \<open>rsync\<close>; a live directory and a
  history directory that both hold a file \<open>x\<close>; a history repository with its \<open>.git\<close>
  directory; a history directory below a dot-directory.
\<close>

definition w_rsync :: world where
  "w_rsync = \<lparr>cwd = [], deny = (\<lambda>p. None), access_w = (\<lambda>p. True), rsync_available = True,
     now = 7\<rparr>"

definition w_copy :: world where
  "w_copy = \<lparr>cwd = [], deny = (\<lambda>p. None), access_w = (\<lambda>p. True), rsync_available = False,
     now = 7\<rparr>"

definition es_collision :: entries where
  "es_collision = [([''data''], Dir), ([''data'', ''x''], File ''live'' 2),
     ([''h''], Dir), ([''h'', ''data''], Dir), ([''h'', ''data'', ''x''], File ''hist!'' 1)]"

definition es_repo :: entries where
  "es_repo = [([''h''], Dir), ([''h'', ''.git''], Dir), ([''h'', ''.git'', ''refs''], Dir),
     ([''h'', ''a''], Dir), ([''h'', ''a'', ''.git''], Dir)]"

definition es_dotdir :: entries where
  "es_dotdir = [([''h''], Dir), ([''h'', ''.cfg''], Dir), ([''h'', ''.cfg'', ''secret''], Dir)]"

text \<open>
  A live path \<open>/f\<close> that is already the link into the history root \<open>/h\<close>, beside a link
  \<open>/g\<close> that points elsewhere; live files \<open>/f\<close> and \<open>/g\<close>, of which only \<open>f\<close> is in the
  history already.
\<close>

definition es_linked :: entries where
  "es_linked = [([''h''], Dir), ([''h'', ''f''], File ''c'' 1), ([''f''], Link ''/h/f''),
     ([''g''], Link ''/old/g'')]"








section \<open>The path mapper\<close>

subsection \<open>Splitting, joining and normalising\<close>


lemma split_sep_no_sep: "w \<in> set (split_sep s) \<Longrightarrow> CHR ''/'' \<notin> set w"
  by (induction s arbitrary: w) (auto split: list.splits if_splits)

lemma split_sep_plain: "CHR ''/'' \<notin> set x \<Longrightarrow> split_sep x = [x]"
  by (induction x) auto

lemma split_sep_append: "CHR ''/'' \<notin> set x \<Longrightarrow> split_sep (x @ CHR ''/'' # r) = x # split_sep r"
  by (induction x) auto

lemma split_join_sep:
  "cs \<noteq> [] \<Longrightarrow> \<forall>c\<in>set cs. CHR ''/'' \<notin> set c \<Longrightarrow> split_sep (join_sep cs) = cs"
  by (induction cs rule: join_sep.induct) (auto simp: split_sep_plain split_sep_append)

lemma split_sep_only_slashes: "split_sep (replicate n (CHR ''/'')) = replicate n [] @ [[]]"
  by (induction n) auto

lemma split_sep_slashes: "split_sep (replicate n (CHR ''/'') @ s) = replicate n [] @ split_sep s"
  by (induction n) auto

lemma nf_Nil: "nf ini []" by (simp add: nf_def)

lemma nf_butlast:
  assumes "nf ini acc"
  shows "nf ini (butlast acc)"
  unfolding nf_def
proof (intro allI impI)
  fix i
  assume b: "i < length (butlast acc)"
  then have i: "i < length acc" by simp
  have e: "\<And>j. j \<le> i \<Longrightarrow> butlast acc ! j = acc ! j"
    using b by (simp add: nth_butlast)
  have "good_comp (acc ! i) \<and> (acc ! i = ''..'' \<longrightarrow> ini = 0 \<and> (\<forall>j<i. acc ! j = ''..''))"
    using assms i unfolding nf_def by blast
  then show "good_comp (butlast acc ! i) \<and>
      (butlast acc ! i = ''..'' \<longrightarrow> ini = 0 \<and> (\<forall>j<i. butlast acc ! j = ''..''))"
    using e by simp
qed

lemma nf_snoc: "nf ini (ys @ [y]) \<Longrightarrow> nf ini ys"
  using nf_butlast[of ini "ys @ [y]"] by simp

lemma nf_snocI:
  "nf ini ys \<Longrightarrow> good_comp y \<Longrightarrow> (y = ''..'' \<Longrightarrow> ini = 0 \<and> (\<forall>j<length ys. ys ! j = ''..'')) \<Longrightarrow> nf ini (ys @ [y])"
  unfolding nf_def by (auto simp: nth_append less_Suc_eq)

lemma nf_last_dotdot:
  assumes "nf ini ys" "ys \<noteq> []" "last ys = ''..''"
  shows "ini = 0 \<and> (\<forall>j<length ys. ys ! j = ''..'')"
proof -
  have l: "ys ! (length ys - 1) = ''..''" using assms by (simp add: last_conv_nth)
  have "length ys - 1 < length ys" using assms by simp
  with assms(1) l have "ini = 0 \<and> (\<forall>j<length ys - 1. ys ! j = ''..'')"
    unfolding nf_def by blast
  with l show ?thesis
    by (metis One_nat_def Suc_pred' length_greater_0_conv assms(2) less_Suc_eq)
qed

lemma norm_step_cases:
  "norm_step ini acc c = acc \<or> norm_step ini acc c = butlast acc \<or>
   (norm_step ini acc c = acc @ [c] \<and> c \<noteq> [] \<and> c \<noteq> ''.'' \<and>
      (c \<noteq> ''..'' \<or> (ini = 0 \<and> acc = []) \<or> (acc \<noteq> [] \<and> last acc = ''..'')))"
  by (simp add: norm_step_def)

lemma nf_norm_step:
  assumes "nf ini acc" "CHR ''/'' \<notin> set c"
  shows "nf ini (norm_step ini acc c)"
proof -
  consider (keep) "norm_step ini acc c = acc" | (pop) "norm_step ini acc c = butlast acc"
    | (push) "norm_step ini acc c = acc @ [c]" "c \<noteq> []" "c \<noteq> ''.''"
        "c \<noteq> ''..'' \<or> (ini = 0 \<and> acc = []) \<or> (acc \<noteq> [] \<and> last acc = ''..'')"
    using norm_step_cases[of ini acc c] by blast
  then show ?thesis
  proof cases
    case keep
    then show ?thesis using assms by simp
  next
    case pop
    then show ?thesis using nf_butlast[OF assms(1)] by simp
  next
    case push
    have g: "good_comp c" using push assms(2) by (simp add: good_comp_def)
    have "c = ''..'' \<Longrightarrow> ini = 0 \<and> (\<forall>j<length acc. acc ! j = ''..'')"
      using push(4) nf_last_dotdot[OF assms(1)] by auto
    then have "nf ini (acc @ [c])" by (rule nf_snocI[OF assms(1) g])
    then show ?thesis using push by simp
  qed
qed

lemma nf_foldl:
  "nf ini acc \<Longrightarrow> \<forall>c\<in>set cs. CHR ''/'' \<notin> set c \<Longrightarrow> nf ini (foldl (norm_step ini) acc cs)"
  by (induction cs arbitrary: acc) (auto simp: nf_norm_step)

lemma nf_stable: "nf ini acc \<Longrightarrow> foldl (norm_step ini) [] acc = acc"
proof (induction acc rule: rev_induct)
  case Nil
  then show ?case by simp
next
  case (snoc y ys)
  have ys: "nf ini ys" using snoc.prems by (rule nf_snoc)
  have g: "good_comp y" using snoc.prems unfolding nf_def
    by (metis length_append_singleton lessI nth_append_length)
  have d: "y = ''..'' \<Longrightarrow> ini = 0 \<and> (ys = [] \<or> last ys = ''..'')"
  proof -
    assume y: "y = ''..''"
    have "(ys @ [y]) ! length ys = ''..''" using y by simp
    with snoc.prems have "ini = 0 \<and> (\<forall>j<length ys. (ys @ [y]) ! j = ''..'')"
      unfolding nf_def by (metis length_append_singleton lessI)
    then show ?thesis
      by (cases ys rule: rev_cases) (auto simp: nth_append split: if_splits)
  qed
  show ?case using snoc.IH[OF ys] g d
    by (auto simp: norm_step_def good_comp_def)
qed

lemma foldl_skip_empty:
  "foldl (norm_step ini) acc (replicate n [] @ cs) = foldl (norm_step ini) acc cs"
  by (induction n) (auto simp: norm_step_def)

lemma foldl_only_empty: "foldl (norm_step ini) acc (replicate n []) = acc"
  by (induction n) (auto simp: norm_step_def)

lemma normpath_dot: "normpath ''.'' = ''.''"
  by (simp add: normpath_def initial_slashes_def startswith_def norm_step_def)

lemma nf_no_sep: "nf ini acc \<Longrightarrow> \<forall>c\<in>set acc. CHR ''/'' \<notin> set c"
  unfolding nf_def good_comp_def by (metis in_set_conv_nth)

lemma join_sep_hd:
  "cs \<noteq> [] \<Longrightarrow> hd cs \<noteq> [] \<Longrightarrow> join_sep cs \<noteq> [] \<and> hd (join_sep cs) = hd (hd cs)"
  by (induction cs rule: join_sep.induct) auto

lemma nf_join_hd:
  assumes "nf ini cs" "cs \<noteq> []"
  shows "join_sep cs \<noteq> [] \<and> hd (join_sep cs) \<noteq> CHR ''/''"
proof -
  have "good_comp (cs ! 0)" using assms unfolding nf_def by auto
  then have "hd cs \<noteq> [] \<and> hd (hd cs) \<noteq> CHR ''/''"
    using assms(2) by (cases cs; cases "hd cs") (auto simp: good_comp_def)
  then show ?thesis using join_sep_hd[OF assms(2)] by auto
qed

lemma initial_slashes_cases: "initial_slashes p = 0 \<or> initial_slashes p = 1 \<or> initial_slashes p = 2"
  by (simp add: initial_slashes_def)

lemma initial_slashes_out:
  assumes "ini = 0 \<or> ini = 1 \<or> ini = 2" "s = [] \<or> hd s \<noteq> CHR ''/''"
  shows "initial_slashes (replicate ini (CHR ''/'') @ s) = ini"
  using assms by (cases s) (auto simp: initial_slashes_def startswith_def numeral_2_eq_2)

lemma normpath_of_nf:
  assumes nf: "nf ini cs" and ini: "ini = 0 \<or> ini = 1 \<or> ini = 2"
  shows "normpath (replicate ini (CHR ''/'') @ join_sep cs) =
    (if replicate ini (CHR ''/'') @ join_sep cs = [] then ''.'' else replicate ini (CHR ''/'') @ join_sep cs)"
proof (cases "replicate ini (CHR ''/'') @ join_sep cs = []")
  case True
  then show ?thesis by (simp add: normpath_def)
next
  case False
  let ?s = "join_sep cs"
  have hd: "?s = [] \<or> hd ?s \<noteq> CHR ''/''"
    using nf_join_hd[OF nf] by (cases "cs = []") auto
  have i: "initial_slashes (replicate ini (CHR ''/'') @ ?s) = ini"
    by (rule initial_slashes_out[OF ini hd])
  have sp: "foldl (norm_step ini) [] (split_sep (replicate ini (CHR ''/'') @ ?s)) = cs"
  proof (cases "cs = []")
    case True
    then show ?thesis by (simp add: split_sep_only_slashes foldl_only_empty norm_step_def)
  next
    case False
    then show ?thesis
      using nf_no_sep[OF nf] nf_stable[OF nf]
      by (simp add: split_sep_slashes foldl_only_empty split_join_sep)
  qed
  show ?thesis using False i sp by (simp add: normpath_def Let_def)
qed

lemma normpath_idem: "normpath (normpath p) = normpath p"
proof (cases "p = []")
  case True
  then show ?thesis
    by (simp add: normpath_def initial_slashes_def startswith_def norm_step_def)
next
  case False
  define ini where "ini = initial_slashes p"
  define cs where "cs = foldl (norm_step ini) [] (split_sep p)"
  have nf: "nf ini cs" unfolding cs_def
    by (rule nf_foldl[OF nf_Nil]) (auto dest: split_sep_no_sep)
  have ini: "ini = 0 \<or> ini = 1 \<or> ini = 2" unfolding ini_def by (rule initial_slashes_cases)
  have np: "normpath p = (if replicate ini (CHR ''/'') @ join_sep cs = [] then ''.''
      else replicate ini (CHR ''/'') @ join_sep cs)"
    by (simp only: normpath_def Let_def False if_False ini_def cs_def)
  show ?thesis
  proof (cases "replicate ini (CHR ''/'') @ join_sep cs = []")
    case True
    then show ?thesis using np
      by (simp add: normpath_def initial_slashes_def startswith_def norm_step_def)
  next
    case False
    then show ?thesis using np normpath_of_nf[OF nf ini] by (auto simp: normpath_dot)
  qed
qed

lemma normpath_abs: "startswith p ''/'' \<Longrightarrow> startswith (normpath p) ''/''"
  by (cases p) (auto simp: normpath_def startswith_def initial_slashes_def Let_def)

lemma path_join_abs: "startswith b ''/'' \<Longrightarrow> startswith (path_join b r) ''/''"
  by (cases b) (auto simp: path_join_def startswith_def)

lemma lstrip_sep_slashes: "lstrip_sep (replicate k (CHR ''/'') @ r) = lstrip_sep r"
  by (induction k) (auto simp: lstrip_sep_def)

subsection \<open>Claim C7\<close>

text \<open>
  C7, as the code has it.  \<open>to_abs_under_base\<close> is idempotent for every absolute base (one
  that starts with the separator).  \<open>to_under_hist\<close> returns the normalised join of the
  history root with \<open>rel\<close> stripped of its leading separators, so it gives the same result
  for \<open>rel\<close> with any number of separators in front, and its result is a fixed point of
  \<open>normpath\<close>; it is not idempotent.  Both are functions of their string arguments alone and
  take no file system.
\<close>

theorem path_mapper_amended:
  "(startswith b ''/'' \<longrightarrow>
      to_abs_under_base b (to_abs_under_base b rel) = to_abs_under_base b rel)
   \<and> to_under_hist hist rel = normpath (path_join hist (lstrip_sep rel))
   \<and> to_under_hist hist (replicate k (CHR ''/'') @ rel) = to_under_hist hist rel
   \<and> normpath (to_under_hist hist rel) = to_under_hist hist rel"
proof -
  have a: "startswith b ''/'' \<Longrightarrow> startswith (to_abs_under_base b rel) ''/''"
    unfolding to_abs_under_base_def
    by (auto simp: normpath_abs path_join_abs) (simp add: startswith_def)
  have "startswith b ''/'' \<Longrightarrow>
      to_abs_under_base b (to_abs_under_base b rel) = to_abs_under_base b rel"
    using a by (simp add: to_abs_under_base_def[of b "to_abs_under_base b rel"])
  then show ?thesis
    by (simp add: to_under_hist_def lstrip_sep_slashes normpath_idem)
qed

text \<open>C7, witness: the base \<open>/srv\<close> and the history root \<open>/h\<close>.\<close>

theorem path_mapper_amended_witness:
  "startswith ''/srv'' ''/'' \<and>
   to_abs_under_base ''/srv'' (to_abs_under_base ''/srv'' ''a/../b'') = ''/srv/b'' \<and>
   to_under_hist ''/h'' ''//a/../b'' = ''/h/b'' \<and>
   normpath (to_under_hist ''/h'' ''a/../b'') = ''/h/b''"
  using path_mapper_amended[of "''/srv''" "''a/../b''" "''/h''" 2]
  by (simp add: to_abs_under_base_def to_under_hist_def normpath_def path_join_def lstrip_sep_def
      startswith_def endswith_def initial_slashes_def norm_step_def numeral_2_eq_2)

text \<open>
  C7, counterexample to the idempotence the claim states: mapping \<open>x\<close> under \<open>/h\<close> twice
  gives \<open>/h/h/x\<close>, and under the relative base \<open>a\<close> mapping twice gives \<open>a/a/x\<close>.
\<close>

theorem path_mapper_idempotent_counterexample:
  "to_under_hist ''/h'' (to_under_hist ''/h'' ''x'') \<noteq> to_under_hist ''/h'' ''x'' \<and>
   to_abs_under_base ''a'' (to_abs_under_base ''a'' ''x'') \<noteq> to_abs_under_base ''a'' ''x''"
  by (simp add: to_abs_under_base_def to_under_hist_def normpath_def path_join_def lstrip_sep_def
      startswith_def endswith_def initial_slashes_def norm_step_def)

section \<open>Configuration\<close>




section \<open>The daemon\<close>


lemma align_loop_char:
  "align_loop script =
     (case dropWhile retrying script of
        [] \<Rightarrow> (StillRunning, replicate (length (takeWhile retrying script)) (Sleep 3))
      | a # rest \<Rightarrow>
          (Returned (), replicate (length (takeWhile retrying script)) (Sleep 3) @
             (if stop_is_set a then [] else [AlignVerified])))"
proof (induction script)
  case Nil
  then show ?case by simp
next
  case (Cons a rest)
  show ?case
  proof (cases "retrying a")
    case True
    then have "\<not> stop_is_set a" "align_attempt a \<noteq> Inr True"
      by (auto simp: retrying_def)
    then have l: "align_loop (a # rest) = (case align_loop rest of (r, ev) \<Rightarrow> (r, Sleep 3 # ev))"
      by simp
    have d: "dropWhile retrying (a # rest) = dropWhile retrying rest"
      and t: "takeWhile retrying (a # rest) = a # takeWhile retrying rest"
      using True by simp_all
    show ?thesis unfolding l d t Cons.IH
      by (cases "dropWhile retrying rest") (simp_all del: dropWhile_eq_Nil_conv)
  next
    case False
    then have "stop_is_set a \<or> align_attempt a = Inr True" by (simp add: retrying_def)
    then show ?thesis using False by auto
  qed
qed




text \<open>
  C2, at the failing input: the first pass fails, the stop flag is set during the sleep,
  and the loop of \<open>ensure_remote_ready\<close> ends without the hashes having been found equal.
  \<open>ensure_remote_ready\<close> returns and \<open>run\<close> calls \<open>link_and_track\<close>.
\<close>

theorem run_links_after_cancelled_alignment:
  "run st0 180 (Inr ()) [pass_fetch_fails, pass_cancelled] (Inr ()) [cycle_stopped] =
     (Returned 0, [Sleep 3, LinkAndTrack])"
  by (simp add: run_def ensure_remote_ready_def st0_def pass_fetch_fails_def pass_cancelled_def
      cycle_stopped_def align_attempt_def)

text \<open>
  Without a stop request during alignment the order holds: \<open>link_and_track\<close> is called once,
  right after the hashes were found equal.
\<close>

lemma sync_loop_no_link: "LinkAndTrack \<notin> set (snd (sync_loop n cycles))"
  by (induction cycles) (auto split: sum.splits prod.splits)

lemma run_order_uncancelled:
  assumes nostop: "\<forall>a\<in>set script. \<not> stop_is_set a"
    and run: "run st n prep script lk cycles = (r, ev)" and lk: "LinkAndTrack \<in> set ev"
  shows "\<exists>k ev'. ev = replicate k (Sleep 3) @ AlignVerified # LinkAndTrack # ev' \<and>
           LinkAndTrack \<notin> set ev'"
proof (cases "dropWhile retrying script")
  case Nil
  then have "fst (align_loop script) = StillRunning"
    "LinkAndTrack \<notin> set (snd (align_loop script))"
    unfolding align_loop_char Nil by simp_all
  then show ?thesis using run lk
    by (auto simp: run_def ensure_remote_ready_def split: if_splits sum.splits prod.splits)
next
  case (Cons a rest)
  have "a \<in> set script" using Cons by (metis list.set_intros(1) set_dropWhileD)
  then have "\<not> stop_is_set a" using nostop by blast
  then have al: "align_loop script =
      (Returned (), replicate (length (takeWhile retrying script)) (Sleep 3) @ [AlignVerified])"
    unfolding align_loop_char Cons by simp
  show ?thesis
  proof (cases "ensure_remote_ready st prep script = align_loop script")
    case False
    then have "ev = []" using run
      by (auto simp: run_def ensure_remote_ready_def split: if_splits sum.splits)
    then show ?thesis using lk by simp
  next
    case True
    show ?thesis
    proof (cases lk)
      case (Inl e)
      then have "ev = replicate (length (takeWhile retrying script)) (Sleep 3) @
          AlignVerified # LinkAndTrack # []"
        using run True al by (auto simp: run_def)
      then show ?thesis by (metis empty_iff list.set(1))
    next
      case (Inr u)
      then have "ev = replicate (length (takeWhile retrying script)) (Sleep 3) @
          AlignVerified # LinkAndTrack # snd (sync_loop n cycles)"
        using run True al by (auto simp: run_def split: prod.splits)
      then show ?thesis using sync_loop_no_link[of n cycles] by blast
    qed
  qed
qed



section \<open>The linker at concrete inputs\<close>

text \<open>
  C1, at the failing input: the live directory and the history directory both hold a file
  \<open>x\<close>, of different size.  With \<open>rsync\<close> the history file ends up with the live content;
  without it the history content stays.
\<close>

theorem rsync_merge_overwrites_history:
  "migrate_and_link w_rsync ''/'' ''/h'' [''data/''] es_collision =
     (Inr (), [([''h''], Dir), ([''h'', ''data''], Dir), ([''h'', ''data'', ''x''], File ''live'' 2),
               ([''data''], Link ''/h/data'')])
   \<and> migrate_and_link w_copy ''/'' ''/h'' [''data/''] es_collision =
     (Inr (), [([''h''], Dir), ([''h'', ''data''], Dir), ([''h'', ''data'', ''x''], File ''hist!'' 1),
               ([''data''], Link ''/h/data'')])"
  by code_simp

text \<open>
  C8, at the failing input: the target \<open>.\<close> mirrors the base at the history root, whose
  \<open>.git\<close> directory is then part of the walk.  \<open>lstrip("./")\<close> turns \<open>.git/refs\<close> into
  \<open>git/refs\<close>, the test for \<open>/.git/\<close> fails, and a placeholder is written into \<open>.git/refs\<close>.
  The nested \<open>a/.git\<close> is skipped.
\<close>

theorem track_empty_dirs_writes_into_git_dir:
  "track_empty_dirs w_copy is_excluded ''/h'' [''.''] [] es_repo =
     (Inr 1, es_repo @ [([''h'', ''.git'', ''refs'', ''.gitkeep''], File [] 7)])"
  by code_simp

text \<open>
  The same slip on an exclude rule: below the target \<open>.cfg/\<close> the directory \<open>.cfg/secret\<close>
  is looked up as \<open>cfg/secret\<close>, which the rule \<open>.cfg/secret\<close> does not match.
\<close>

lemma track_empty_dirs_writes_into_excluded_dir:
  "track_empty_dirs w_copy is_excluded ''/h'' [''.cfg/''] [''.cfg/secret''] es_dotdir =
     (Inr 1, es_dotdir @ [([''h'', ''.cfg'', ''secret'', ''.gitkeep''], File [] 7)])"
  by code_simp

section \<open>Paths as strings and as component lists\<close>

lemma canon_nf: "canon p \<Longrightarrow> nf 1 p"
  by (auto simp: canon_def nf_def list_all_iff)

lemma canon_no_sep: "canon p \<Longrightarrow> \<forall>c\<in>set p. CHR ''/'' \<notin> set c"
  by (auto simp: canon_def good_comp_def list_all_iff)

lemma canon_append: "canon (p @ q) \<longleftrightarrow> canon p \<and> canon q"
  by (auto simp: canon_def)

lemma canon_butlast: "canon p \<Longrightarrow> canon (butlast p)"
  by (auto simp: canon_def list_all_iff dest: in_set_butlastD)

lemma abs_str_nonempty: "abs_str p \<noteq> []"
  by (simp add: abs_str_def)

lemma startswith_abs_str: "startswith (abs_str p) ''/''"
  by (simp add: abs_str_def startswith_def)

lemma path_of_abs_str: "canon p \<Longrightarrow> path_of w (abs_str p) = p"
proof (cases "p = []")
  case True
  then show ?thesis
    by (simp add: path_of_def walk_from_def abs_str_def startswith_def norm_step_def)
next
  case False
  assume c: "canon p"
  have "split_sep (abs_str p) = [] # p"
    using False split_join_sep[OF False canon_no_sep[OF c]] by (simp add: abs_str_def)
  then show ?thesis
    using nf_stable[OF canon_nf[OF c]]
    by (simp add: path_of_def walk_from_def startswith_abs_str norm_step_def)
qed

lemma join_sep_snoc: "join_sep (q @ [c]) = (if q = [] then c else join_sep q @ CHR ''/'' # c)"
  by (induction q rule: join_sep.induct) auto

lemma join_sep_last_not_sep:
  "q \<noteq> [] \<Longrightarrow> canon q \<Longrightarrow> join_sep q \<noteq> [] \<and> last (join_sep q) \<noteq> CHR ''/''"
  by (cases q rule: rev_cases) (auto simp: join_sep_snoc canon_def good_comp_def dest: last_in_set)

lemma rstrip_sep_snoc_sep:
  "x \<noteq> [] \<Longrightarrow> last x \<noteq> CHR ''/'' \<Longrightarrow> rstrip_sep (x @ ''/'') = x"
  by (cases x rule: rev_cases) (auto simp: rstrip_sep_def)

lemma dropWhile_rev_comp:
  "CHR ''/'' \<notin> set c \<Longrightarrow> dropWhile (\<lambda>x. x \<noteq> CHR ''/'') (rev c @ CHR ''/'' # r) = CHR ''/'' # r"
  by (induction c rule: rev_induct) auto

lemma dirname_abs_str:
  assumes "canon p" "p \<noteq> []"
  shows "dirname (abs_str p) = abs_str (butlast p)"
proof -
  obtain q c where p: "p = q @ [c]" using assms(2) by (cases p rule: rev_cases) auto
  have c: "CHR ''/'' \<notin> set c" and q: "canon q"
    using assms(1) p by (auto simp: canon_def good_comp_def)
  show ?thesis
  proof (cases "q = []")
    case True
    have "rev (abs_str p) = rev c @ CHR ''/'' # []" using p True by (simp add: abs_str_def)
    then have "rev (dropWhile (\<lambda>x. x \<noteq> CHR ''/'') (rev (abs_str p))) = ''/''"
      using dropWhile_rev_comp[OF c, of "[]"] by simp
    then show ?thesis using p True by (simp add: dirname_def abs_str_def)
  next
    case False
    have "rev (abs_str p) = rev c @ CHR ''/'' # rev (abs_str q)"
      using p False by (simp add: abs_str_def join_sep_snoc)
    then have h: "rev (dropWhile (\<lambda>x. x \<noteq> CHR ''/'') (rev (abs_str p))) = abs_str q @ ''/''"
      using dropWhile_rev_comp[OF c, of "rev (abs_str q)"] by simp
    have l: "abs_str q \<noteq> [] \<and> last (abs_str q) \<noteq> CHR ''/''"
      using join_sep_last_not_sep[OF False q] by (simp add: abs_str_def)
    have ns: "abs_str q @ ''/'' \<noteq> replicate (length (abs_str q @ ''/'')) (CHR ''/'')"
    proof
      assume "abs_str q @ ''/'' = replicate (length (abs_str q @ ''/'')) (CHR ''/'')"
      then have "set (abs_str q @ ''/'') \<subseteq> {CHR ''/''}"
        by (metis set_replicate_conv_if subset_insertI empty_subsetI subset_refl)
      then have "last (abs_str q) = CHR ''/''" using l by (auto dest: last_in_set)
      then show False using l by simp
    qed
    show ?thesis unfolding dirname_def h Let_def
      using ns rstrip_sep_snoc_sep[of "abs_str q"] l p by simp
  qed
qed




section \<open>The table and the system calls\<close>

lemma map_of_upd: "map_of (upd p n es) = (map_of es)(p \<mapsto> n)"
  by (induction es) (auto simp: fun_eq_iff)

lemma lookup_upd:
  "p \<noteq> [] \<Longrightarrow> lookup (upd p n es) q = (if q = p then Some n else lookup es q)"
  by (simp add: lookup_def map_of_upd)

lemma map_of_filter_key:
  "map_of (filter (\<lambda>(k, v). P k) es) k = (if P k then map_of es k else None)"
  by (induction es) auto

lemma lookup_del: "lookup (del p es) q = (if q = p \<and> p \<noteq> [] then None else lookup es q)"
  using map_of_filter_key[of "\<lambda>k. k \<noteq> p" es q] by (auto simp: lookup_def del_def)

lemma real_dir_iff: "real_dir es p \<longleftrightarrow> (\<forall>q. prefix q p \<longrightarrow> lookup es q = Some Dir)"
  by (auto simp: real_dir_def list_all_iff in_set_prefixes)

lemma follow_nonlink:
  "lookup es p = Some n \<Longrightarrow> (\<And>t. n \<noteq> Link t) \<Longrightarrow> follow (Suc k) es p = Some (p, n)"
  by (cases n) auto

lemma stat_nonlink:
  "lookup es p = Some n \<Longrightarrow> (\<And>t. n \<noteq> Link t) \<Longrightarrow> stat es p = Some (p, n)"
  unfolding stat_def by (rule follow_nonlink)



lemma makedirs_r_noop:
  assumes "real_dir es p"
  shows "makedirs_r w (rev p) es = (Inr (), es)"
proof (cases p rule: rev_cases)
  case Nil
  then show ?thesis by simp
next
  case (snoc q c)
  have q: "lookup es q = Some Dir" and p: "lookup es (q @ [c]) = Some Dir"
    using assms snoc by (auto simp: real_dir_iff)
  have sq: "stat es q = Some (q, Dir)" and sp: "stat es (q @ [c]) = Some (q @ [c], Dir)"
    using q p by (simp_all add: stat_nonlink)
  show ?thesis using snoc q p sq sp by (simp add: create_def)
qed

lemma os_makedirs_noop:
  "canon p \<Longrightarrow> real_dir es p \<Longrightarrow> os_makedirs w (abs_str p) es = (Inr (), es)"
  by (simp add: os_makedirs_def abs_str_nonempty path_of_abs_str makedirs_r_noop)



section \<open>A target that is already a link\<close>

lemma for_each_single: "for_each body [x] es = body x es"
  by (cases "body x es") (auto split: sum.splits)

lemma ensure_symlink_same:
  assumes "canon sp" "sp \<noteq> []" "real_dir es (butlast sp)"
    and "lookup es sp = Some (Link dst)"
  shows "ensure_symlink w (abs_str sp) dst es = (Inr (), es)"
  using assms
  by (simp add: ensure_symlink_def and_then_def dirname_abs_str abs_str_nonempty
      os_makedirs_noop canon_butlast os_path_islink_def os_readlink_def path_of_abs_str)

lemma ensure_symlink_other:
  assumes "canon sp" "sp \<noteq> []" "real_dir es (butlast sp)"
    and "lookup es sp = Some (Link t)" "t \<noteq> dst" "deny w sp = None"
  shows "ensure_symlink w (abs_str sp) dst es = (Inr (), upd sp (Link dst) (del sp es))"
proof -
  have par: "lookup es (butlast sp) = Some Dir"
    using assms(3) by (simp add: real_dir_iff)
  have ne: "butlast sp \<noteq> sp" using assms(2) by (cases sp rule: rev_cases) auto
  have "create w sp (Link dst) (del sp es) = Inr (upd sp (Link dst) (del sp es))"
    using par ne assms by (simp add: create_def lookup_del)
  then show ?thesis using assms
    by (simp add: ensure_symlink_def and_then_def dirname_abs_str abs_str_nonempty
        os_makedirs_noop canon_butlast os_path_islink_def os_readlink_def path_of_abs_str
        os_unlink_def os_symlink_def sys_unlink_def lift_def)
qed

text \<open>
  C6, as the code has it.  The live path is a symbolic link, and the parent directory of
  the history path exists (as it does after an earlier run).  When the link points at the
  exact history path, \<open>migrate_and_link\<close> returns with the table as it was: nothing is
  created, removed or copied.  When it points elsewhere and the system allows it, the link
  is removed and created again pointing at the history path, and nothing else changes.
\<close>

theorem relink_existing_symlink:
  assumes src: "to_abs_under_base base_root (rstrip_sep rel) = abs_str sp"
    and dst: "to_under_hist hist (rstrip_sep rel) = abs_str dp"
    and canon: "canon sp" "sp \<noteq> []" "canon dp" "dp \<noteq> []"
    and dirs: "real_dir es (butlast sp)" "real_dir es (butlast dp)"
    and link: "lookup es sp = Some (Link t)"
  shows "(t = abs_str dp \<longrightarrow> migrate_and_link w base_root hist [rel] es = (Inr (), es))
       \<and> (t \<noteq> abs_str dp \<and> deny w sp = None \<longrightarrow>
           (\<exists>es'. migrate_and_link w base_root hist [rel] es = (Inr (), es')
              \<and> lookup es' sp = Some (Link (abs_str dp))
              \<and> (\<forall>q. q \<noteq> sp \<longrightarrow> lookup es' q = lookup es q)))"
proof -
  have "migrate_and_link w base_root hist [rel] es = migrate_target w base_root hist rel es"
    by (simp only: migrate_and_link_def for_each_single)
  also have "\<dots> = ensure_symlink w (abs_str sp) (abs_str dp) es"
    using canon dirs link
    by (simp add: migrate_target_def src dst Let_def
        and_then_def dirname_abs_str os_makedirs_noop canon_butlast os_path_islink_def
        path_of_abs_str)
  finally have m: "migrate_and_link w base_root hist [rel] es =
      ensure_symlink w (abs_str sp) (abs_str dp) es" .
  show ?thesis
  proof (intro conjI impI)
    assume "t = abs_str dp"
    then show "migrate_and_link w base_root hist [rel] es = (Inr (), es)"
      unfolding m using ensure_symlink_same[OF canon(1,2) dirs(1)] link by simp
  next
    assume a: "t \<noteq> abs_str dp \<and> deny w sp = None"
    have "migrate_and_link w base_root hist [rel] es =
        (Inr (), upd sp (Link (abs_str dp)) (del sp es))"
      unfolding m using ensure_symlink_other[OF canon(1,2) dirs(1) link] a by simp
    moreover have "lookup (upd sp (Link (abs_str dp)) (del sp es)) sp = Some (Link (abs_str dp))"
      using canon(2) by (simp add: lookup_upd)
    moreover have "\<forall>q. q \<noteq> sp \<longrightarrow> lookup (upd sp (Link (abs_str dp)) (del sp es)) q = lookup es q"
      using canon(2) by (simp add: lookup_upd lookup_del)
    ultimately show "\<exists>es'. migrate_and_link w base_root hist [rel] es = (Inr (), es')
              \<and> lookup es' sp = Some (Link (abs_str dp))
              \<and> (\<forall>q. q \<noteq> sp \<longrightarrow> lookup es' q = lookup es q)"
      by blast
  qed
qed

text \<open>C6, witness: \<open>/f\<close> is the right link already, \<open>/g\<close> points at \<open>/old/g\<close>.\<close>

theorem relink_existing_symlink_witness:
  "migrate_and_link w_copy ''/'' ''/h'' [''f''] es_linked = (Inr (), es_linked)
   \<and> (\<exists>es'. migrate_and_link w_copy ''/'' ''/h'' [''g''] es_linked = (Inr (), es')
         \<and> lookup es' [''g''] = Some (Link ''/h/g'')
         \<and> lookup es' [''f''] = lookup es_linked [''f''])"
proof -
  have f1: "to_abs_under_base ''/'' (rstrip_sep ''f'') = abs_str [''f'']"
    and f2: "to_under_hist ''/h'' (rstrip_sep ''f'') = abs_str [''h'', ''f'']"
    and g1: "to_abs_under_base ''/'' (rstrip_sep ''g'') = abs_str [''g'']"
    and g2: "to_under_hist ''/h'' (rstrip_sep ''g'') = abs_str [''h'', ''g'']"
    by code_simp+
  have c: "canon [''f'']" "canon [''g'']" "canon [''h'', ''f'']" "canon [''h'', ''g'']"
    by code_simp+
  have d: "real_dir es_linked (butlast [''f''])" "real_dir es_linked (butlast [''g''])"
    "real_dir es_linked (butlast [''h'', ''f''])" "real_dir es_linked (butlast [''h'', ''g''])"
    by code_simp+
  have l: "lookup es_linked [''f''] = Some (Link ''/h/f'')"
    "lookup es_linked [''g''] = Some (Link ''/old/g'')"
    by code_simp+
  have s: "abs_str [''h'', ''f''] = ''/h/f''" "abs_str [''h'', ''g''] = ''/h/g''"
    "''/old/g'' \<noteq> ''/h/g''" "deny w_copy [''g''] = None"
    by code_simp+
  have n: "[''f''] \<noteq> [''g'']" by simp
  show ?thesis
    using relink_existing_symlink[OF f1 f2 c(1) _ c(3) _ d(1) d(3) l(1), of w_copy]
      relink_existing_symlink[OF g1 g2 c(2) _ c(4) _ d(2) d(4) l(2), of w_copy] s n
    by auto
qed

text \<open>
  C6, counterexample to the claim as stated: the live path \<open>/f\<close> is a link to the exact
  history path \<open>/h/f\<close>, but the history root is not there.  The
  \<open>os.makedirs(os.path.dirname(dst))\<close> that precedes the test for the link creates \<open>/h\<close>.
\<close>

theorem relink_creates_history_parent_counterexample:
  "os_readlink w_copy [([''f''], Link ''/h/f'')] (to_abs_under_base ''/'' ''f'') =
     Some (to_under_hist ''/h'' ''f'')
   \<and> migrate_and_link w_copy ''/'' ''/h'' [''f''] [([''f''], Link ''/h/f'')] =
     (Inr (), [([''f''], Link ''/h/f''), ([''h''], Dir)])"
  by code_simp


section \<open>A target that is a regular file\<close>

lemma real_dir_lookup: "real_dir es p \<Longrightarrow> prefix q p \<Longrightarrow> lookup es q = Some Dir"
  by (simp add: real_dir_iff)

lemma real_dir_frame:
  assumes "real_dir es p" "\<And>q. prefix q p \<Longrightarrow> lookup es' q = lookup es q"
  shows "real_dir es' p"
  using assms by (simp add: real_dir_iff)



lemma strict_prefix_butlast: "p \<noteq> [] \<Longrightarrow> prefix q p \<Longrightarrow> q \<noteq> p \<Longrightarrow> prefix q (butlast p)"
  by (metis append_butlast_last_id prefix_snoc)





section \<open>Tracking empty directories\<close>

















section \<open>A live directory that cannot be replaced\<close>






















end
